theory Spec2Isabelle
  imports Main "HOL-Library.Sublist"
begin

section \<open>Python values\<close>

text \<open>
  A Python \<open>str\<close> is a sequence of unicode code points; \<open>ord\<close> and \<open>len\<close> see code
  points, so a string is modelled as the list of its code points. Literals of the scripts
  are written \<open>S ''...''\<close>.
\<close>

type_synonym pystr = "nat list"

abbreviation S :: "string \<Rightarrow> pystr" where
  "S \<equiv> map of_char"

datatype py_error =
  IndexError | KeyError | TypeError | AttributeError | ValueError | FileNotFoundError
  | HostError

subsection \<open>String methods\<close>

text \<open>\<open>str(n)\<close> for a natural number and for an integer: the decimal digits.\<close>

fun str_nat :: "nat \<Rightarrow> pystr" where
  "str_nat n = (if n < 10 then [48 + n] else str_nat (n div 10) @ [48 + n mod 10])"

declare str_nat.simps [simp del]

definition str_int :: "int \<Rightarrow> pystr" where
  "str_int i = (if i < 0 then 45 # str_nat (nat (- i)) else str_nat (nat i))"

text \<open>\<open>sep.join(xs)\<close>.\<close>

fun py_join :: "pystr \<Rightarrow> pystr list \<Rightarrow> pystr" where
  "py_join sep [] = []"
| "py_join sep [x] = x"
| "py_join sep (x # y # ys) = x @ sep @ py_join sep (y # ys)"

text \<open>\<open>s.split(sep)\<close> for a separator of one character.\<close>

fun py_split :: "nat \<Rightarrow> pystr \<Rightarrow> pystr list" where
  "py_split sep [] = [[]]"
| "py_split sep (c # cs) =
     (if c = sep then [] # py_split sep cs
      else (case py_split sep cs of w # ws \<Rightarrow> (c # w) # ws | [] \<Rightarrow> [[c]]))"

text \<open>\<open>s.startswith(p)\<close> and \<open>s.endswith(p)\<close>.\<close>

definition py_startswith :: "pystr \<Rightarrow> pystr \<Rightarrow> bool" where
  "py_startswith s p = prefix p s"

definition py_endswith :: "pystr \<Rightarrow> pystr \<Rightarrow> bool" where
  "py_endswith s p = prefix (rev p) (rev s)"

text \<open>\<open>pat in s\<close>: \<open>pat\<close> occurs in \<open>s\<close> as a contiguous substring.\<close>

fun py_in :: "pystr \<Rightarrow> pystr \<Rightarrow> bool" where
  "py_in pat [] = (pat = [])"
| "py_in pat (c # cs) = (prefix pat (c # cs) \<or> py_in pat cs)"

text \<open>
  \<open>s.replace(old, new)\<close>: the occurrences of \<open>old\<close> are found from the left and do not
  overlap. With an empty \<open>old\<close>, \<open>new\<close> is inserted before every character and at the end.
\<close>

fun replace_from :: "pystr \<Rightarrow> pystr \<Rightarrow> pystr \<Rightarrow> pystr" where
  "replace_from [] old new = []"
| "replace_from (c # cs) old new =
     (if old \<noteq> [] \<and> prefix old (c # cs)
      then new @ replace_from (drop (length old) (c # cs)) old new
      else c # replace_from cs old new)"

definition py_replace :: "pystr \<Rightarrow> pystr \<Rightarrow> pystr \<Rightarrow> pystr" where
  "py_replace s old new =
     (if old = [] then new @ concat (map (\<lambda>c. c # new) s) else replace_from s old new)"

text \<open>
  \<open>xs[i]\<close> and \<open>xs[i] = v\<close> with Python's indices: a negative index counts from the end,
  an index out of range raises \<open>IndexError\<close>.
\<close>

definition py_pos :: "nat \<Rightarrow> int \<Rightarrow> nat option" where
  "py_pos len i =
     (if 0 \<le> i \<and> i < int len then Some (nat i)
      else if i < 0 \<and> - int len \<le> i then Some (nat (int len + i))
      else None)"

definition py_index :: "'a list \<Rightarrow> int \<Rightarrow> py_error + 'a" where
  "py_index xs i =
     (case py_pos (length xs) i of None \<Rightarrow> Inl IndexError | Some j \<Rightarrow> Inr (xs ! j))"

definition py_setitem :: "'a list \<Rightarrow> int \<Rightarrow> 'a \<Rightarrow> py_error + 'a list" where
  "py_setitem xs i v =
     (case py_pos (length xs) i of None \<Rightarrow> Inl IndexError | Some j \<Rightarrow> Inr (xs[j := v]))"

text \<open>
  A \<open>dict\<close> keeps its keys in insertion order; assigning to a key that is present keeps
  the key's place.
\<close>

fun dict_set :: "('k \<times> 'v) list \<Rightarrow> 'k \<Rightarrow> 'v \<Rightarrow> ('k \<times> 'v) list" where
  "dict_set [] k v = [(k, v)]"
| "dict_set ((k', v') # d) k v = (if k' = k then (k, v) # d else (k', v') # dict_set d k v)"

text \<open>
  The values the scripts pass around without knowing their type: what the tracking
  service returns, what a dictionary holds. A float is kept as the text it was read from;
  no float reaches a truth test in the scripts. A host object is a handle.
\<close>

type_synonym obj = nat

datatype pyval =
  PNone | PBool bool | PInt int | PStr pystr | PFloat pystr | PObj obj
  | PList "pyval list" | PDict "(pystr \<times> pyval) list"

fun truthy :: "pyval \<Rightarrow> bool" where
  "truthy PNone = False"
| "truthy (PBool b) = b"
| "truthy (PInt i) = (i \<noteq> 0)"
| "truthy (PStr s) = (s \<noteq> [])"
| "truthy (PFloat f) = True"
| "truthy (PObj x) = True"
| "truthy (PList xs) = (xs \<noteq> [])"
| "truthy (PDict d) = (d \<noteq> [])"

text \<open>
  \<open>v[key]\<close> on a value: a dictionary without the key raises \<open>KeyError\<close>, a value that
  is no dictionary (\<open>None\<close> where a record was expected) raises \<open>TypeError\<close>.
\<close>

fun subscript :: "pyval \<Rightarrow> pystr \<Rightarrow> py_error + pyval" where
  "subscript (PDict d) key = (case map_of d key of None \<Rightarrow> Inl KeyError | Some v \<Rightarrow> Inr v)"
| "subscript v key = Inl TypeError"

section \<open>Slate text\<close>

subsection \<open>\<open>ascii_convert\<close>\<close>

definition ascii_convert :: "pystr \<Rightarrow> pystr" where
  "ascii_convert text_to_convert =
     (let text1 = py_replace (py_replace text_to_convert [8220] [34]) [8221] [34];
          ascii_list = filter (\<lambda>ascii_num. ascii_num \<noteq> 194) text1
      in py_join [32] (map str_nat ascii_list))"

subsection \<open>\<open>replace_token\<close>, \<open>update_setup\<close> and the loop of \<open>generate_slate\<close>\<close>

text \<open>
  \<open>replace_token\<close> takes \<open>len(value)\<close> and then \<open>ascii_convert(value)\<close>, which calls
  \<open>value.replace\<close>: a string passes both; a list or a dictionary has a length and no
  \<open>replace\<close> (\<open>AttributeError\<close>); any other value has no length (\<open>TypeError\<close>).
\<close>

fun str_value :: "pyval \<Rightarrow> py_error + pystr" where
  "str_value (PStr s) = Inr s"
| "str_value (PList xs) = Inl AttributeError"
| "str_value (PDict d) = Inl AttributeError"
| "str_value v = Inl TypeError"

text \<open>The line \<open>f'TextLength {char_count}\n'\<close>.\<close>

definition textlength_line :: "nat \<Rightarrow> pystr" where
  "textlength_line char_count = S ''TextLength '' @ str_nat char_count @ [10]"

text \<open>\<open>if not value: value = ' '\<close>\<close>

definition value_or_space :: "pyval \<Rightarrow> pyval" where
  "value_or_space v = (if truthy v then v else PStr (S '' ''))"

text \<open>The body of the loop of \<open>replace_token\<close> over \<open>text_lines.items()\<close>.\<close>

definition token_step ::
  "pystr \<Rightarrow> pystr \<Rightarrow> pystr \<Rightarrow> int \<times> pystr \<Rightarrow> (int \<times> pystr) list \<Rightarrow> (int \<times> pystr) list" where
  "token_step pattern pattern_replacement length_line =
     (\<lambda>(index, line) new_lines.
        if py_in pattern line
        then dict_set (dict_set new_lines index (py_replace line pattern pattern_replacement))
               (index - 1) length_line
        else new_lines)"

definition replace_token ::
  "pystr \<Rightarrow> pyval \<Rightarrow> (int \<times> pystr) list \<Rightarrow> py_error + (int \<times> pystr) list" where
  "replace_token token v text_lines =
     (case str_value (value_or_space v) of
        Inl e \<Rightarrow> Inl e
      | Inr s \<Rightarrow>
          let char_count = length s;
              pattern = ascii_convert token;
              pattern_replacement = ascii_convert s
          in Inr (fold (token_step pattern pattern_replacement (textlength_line char_count))
                    text_lines []))"

fun update_setup :: "pystr list \<Rightarrow> (int \<times> pystr) list \<Rightarrow> py_error + pystr list" where
  "update_setup setup_lines [] = Inr setup_lines"
| "update_setup setup_lines ((index, v) # new_lines) =
     (case py_setitem setup_lines index v of
        Inl e \<Rightarrow> Inl e
      | Inr setup_lines' \<Rightarrow> update_setup setup_lines' new_lines)"

text \<open>
  \<open>{index: line for index, line in enumerate(slate_setup) if line.startswith('Text')}\<close>
\<close>

definition text_lines_of :: "pystr list \<Rightarrow> (int \<times> pystr) list" where
  "text_lines_of slate_setup =
     filter (\<lambda>(index, line). py_startswith line (S ''Text''))
       (zip (map int [0..<length slate_setup]) slate_setup)"

text \<open>
  The loop of \<open>generate_slate\<close> over \<open>slate_info.items()\<close>. \<open>text_lines\<close> is computed
  once, from the template as it was loaded, and every pass searches that same dictionary.
\<close>

fun fill_setup ::
  "(int \<times> pystr) list \<Rightarrow> (pystr \<times> pyval) list \<Rightarrow> pystr list \<Rightarrow> py_error + pystr list" where
  "fill_setup text_lines [] slate_setup = Inr slate_setup"
| "fill_setup text_lines ((token, v) # items) slate_setup =
     (case replace_token token v text_lines of
        Inl e \<Rightarrow> Inl e
      | Inr new_lines \<Rightarrow>
          (case update_setup slate_setup new_lines of
             Inl e \<Rightarrow> Inl e
           | Inr slate_setup' \<Rightarrow> fill_setup text_lines items slate_setup'))"

definition fill_slate :: "pystr list \<Rightarrow> (pystr \<times> pyval) list \<Rightarrow> py_error + pystr list" where
  "fill_slate slate_setup slate_info =
     fill_setup (text_lines_of slate_setup) slate_info slate_setup"

section \<open>The host\<close>

text \<open>
  Both scripts run inside the editor and talk to two closed interfaces: the editor's
  scripting objects and the tracking service. Neither is part of the repository, so the
  host is a parameter: a record of the answers it gives. A run of a script is a function
  on a world that holds the trace of the calls made so far (each with its result, or with
  \<open>None\<close> when the call raised) and the temporary folder on disk.

  \<^item> A method call that creates, changes, renders or transmits something is a \<open>call\<close>; the
    host decides from the trace so far whether it raises and what it returns.
  \<^item> Reading an attribute of a host object does not raise. Scalar attributes (a name, a
    frame count) are those of the object; the contents of a container (the clips of a
    reel, the tracks of a version) are read from the host as it stands after the calls
    made so far.
  \<^item> Writing and removing the temporary folder act on the world and are recorded in the
    trace; they do not raise.
\<close>

datatype callback =
  ImportOnlineMezzanines obj "(pystr \<times> obj) list" pystr
  | ImportOfflineMezzanines obj "(pystr \<times> obj) list" pystr "(pystr \<times> pystr) list"

datatype call =
  BrowserShow pystr bool pystr
  | ShowInConsole pystr "pystr option" "int option"
  | CurrentEngine
  | GetAuthenticatedUser
  | CreateSgConnection obj
  | ResolveEntity obj
  | NewExporter
  | SetAttr obj string pyval
  | Export obj obj pystr pyval
  | FindOne obj pystr pyval pyval
  | Create obj pystr pyval
  | Upload obj pystr pyval pystr pystr
  | Sleep int
  | CreateReel obj pystr
  | ImportClips pystr obj
  | Match obj obj "bool option"
  | OpenAsSequence obj
  | CreateSequence obj pystr int int int pystr pystr pyval int
  | Overwrite obj obj "int option" "obj option"
  | CreateTrack obj
  | CreateEffect obj pystr
  | LoadSetup obj pystr
  | GetColourSpace obj
  | Delete obj
  | CreateLibrary obj pystr
  | CreateFolder obj pystr
  | Move "obj list" obj
  | ScheduleIdleEvent callback int
  | MakeDirs pystr
  | WriteLines pystr "pystr list"
  | RmTree pystr

type_synonym entry = "call \<times> pyval option"

record host =
  respond :: "entry list \<Rightarrow> call \<Rightarrow> pyval option"
  respond_obj :: "entry list \<Rightarrow> call \<Rightarrow> obj option"
  respond_objs :: "entry list \<Rightarrow> call \<Rightarrow> obj list option"
  str_attr :: "obj \<Rightarrow> string \<Rightarrow> pystr"
  int_attr :: "obj \<Rightarrow> string \<Rightarrow> int"
  val_attr :: "obj \<Rightarrow> string \<Rightarrow> pyval"
  obj_attr :: "obj \<Rightarrow> string \<Rightarrow> obj"
  list_attr :: "entry list \<Rightarrow> obj \<Rightarrow> string \<Rightarrow> obj list"
  isinstance :: "obj \<Rightarrow> string \<Rightarrow> bool"
  browser_selection :: "entry list \<Rightarrow> pyval list"
  script_path :: pystr
  environ :: "pystr \<Rightarrow> pystr option"
  read_lines :: "pystr \<Rightarrow> pystr list option"
  today :: pystr
  split_ws :: "pystr \<Rightarrow> pystr list"
  py_float :: "pystr \<Rightarrow> pyval option"

record world =
  trace :: "entry list"
  temp_exists :: bool
  files :: "(pystr \<times> pystr list) list"

type_synonym 'a prog = "world \<Rightarrow> (py_error + 'a) \<times> world"

definition ret :: "'a \<Rightarrow> 'a prog" where
  "ret x = (\<lambda>w. (Inr x, w))"

definition raise :: "py_error \<Rightarrow> 'a prog" where
  "raise e = (\<lambda>w. (Inl e, w))"

definition lift :: "py_error + 'a \<Rightarrow> 'a prog" where
  "lift r = (\<lambda>w. (r, w))"

definition bindp :: "'a prog \<Rightarrow> ('a \<Rightarrow> 'b prog) \<Rightarrow> 'b prog" where
  "bindp m f = (\<lambda>w. case m w of (Inl e, w') \<Rightarrow> (Inl e, w') | (Inr x, w') \<Rightarrow> f x w')"

definition log :: "entry \<Rightarrow> world \<Rightarrow> world" where
  "log e w = w\<lparr>trace := trace w @ [e]\<rparr>"

text \<open>A call answered by the host: with a value, with an object, with a list of objects.\<close>

definition invoke :: "host \<Rightarrow> call \<Rightarrow> pyval prog" where
  "invoke h c = (\<lambda>w. case respond h (trace w) c of
                        None \<Rightarrow> (Inl HostError, log (c, None) w)
                      | Some r \<Rightarrow> (Inr r, log (c, Some r) w))"

definition invoke_obj :: "host \<Rightarrow> call \<Rightarrow> obj prog" where
  "invoke_obj h c = (\<lambda>w. case respond_obj h (trace w) c of
                            None \<Rightarrow> (Inl HostError, log (c, None) w)
                          | Some x \<Rightarrow> (Inr x, log (c, Some (PObj x)) w))"

definition invoke_objs :: "host \<Rightarrow> call \<Rightarrow> obj list prog" where
  "invoke_objs h c = (\<lambda>w. case respond_objs h (trace w) c of
                             None \<Rightarrow> (Inl HostError, log (c, None) w)
                           | Some xs \<Rightarrow> (Inr xs, log (c, Some (PList (map PObj xs))) w))"

text \<open>An effect of the script's own (the disk, \<open>time.sleep\<close>): recorded, never raising.\<close>

definition emit :: "call \<Rightarrow> unit prog" where
  "emit c = (\<lambda>w. (Inr (), log (c, Some PNone) w))"

text \<open>Reading the contents of a container of a host object.\<close>

definition children :: "host \<Rightarrow> obj \<Rightarrow> string \<Rightarrow> obj list prog" where
  "children h x name = (\<lambda>w. (Inr (list_attr h (trace w) x name), w))"

text \<open>\<open>try: m  except: handler\<close> with a bare \<open>except\<close>.\<close>

definition try_except :: "'a prog \<Rightarrow> 'a prog \<Rightarrow> 'a prog" where
  "try_except m handler = (\<lambda>w. case m w of (Inl e, w') \<Rightarrow> handler w' | (Inr x, w') \<Rightarrow> (Inr x, w'))"

text \<open>\<open>os.path.join\<close> on a POSIX system.\<close>

definition path_join :: "pystr \<Rightarrow> pystr \<Rightarrow> pystr" where
  "path_join a b =
     (if py_startswith b (S ''/'') then b
      else if a = [] \<or> py_endswith a (S ''/'') then a @ b
      else a @ S ''/'' @ b)"

definition path_join_all :: "pystr \<Rightarrow> pystr list \<Rightarrow> pystr" where
  "path_join_all a bs = foldl path_join a bs"

text \<open>A value used where a string is required (\<open>os.path.join\<close>, \<open>str.replace\<close>).\<close>

fun as_str :: "pyval \<Rightarrow> py_error + pystr" where
  "as_str (PStr s) = Inr s"
| "as_str v = Inl TypeError"

section \<open>Script one: \<open>create_playlist_for_review.py\<close>\<close>

definition H264_PRESET :: "host \<Rightarrow> pystr" where
  "H264_PRESET h =
     path_join_all (script_path h) [S ''export_presets'', S ''Shotgrid Version Creation.xml'']"

definition DNX36_PRESET :: "host \<Rightarrow> pystr" where
  "DNX36_PRESET h =
     path_join_all (script_path h) [S ''export_presets'', S ''Editorial DNx36.xml'']"

text \<open>\<open>{'type': t, 'id': i}\<close>\<close>

definition entity :: "string \<Rightarrow> pyval \<Rightarrow> pyval" where
  "entity t i = PDict [(S ''type'', PStr (S t)), (S ''id'', i)]"

text \<open>The dictionary \<open>version_data\<close> of \<open>create_versions\<close>.\<close>

definition version_data ::
  "pystr \<Rightarrow> pyval \<Rightarrow> pyval \<Rightarrow> pyval \<Rightarrow> pyval \<Rightarrow> pyval \<Rightarrow> int \<Rightarrow> pyval \<Rightarrow> pyval \<Rightarrow> pystr
     \<Rightarrow> (pystr \<times> pyval) list" where
  "version_data clip_name shot_id task_id project_id description user duration_frame ratio
     frame_rate path_to_movie =
     [(S ''code'', PStr clip_name),
      (S ''entity'', entity ''Shot'' shot_id),
      (S ''sg_task'', entity ''Task'' task_id),
      (S ''project'', entity ''Project'' project_id),
      (S ''description'', description),
      (S ''user'', user),
      (S ''sg_status_list'', PStr (S ''rev'')),
      (S ''sg_first_frame'', PInt 1001),
      (S ''sg_last_frame'', PInt (duration_frame + 999)),
      (S ''frame_count'', PInt (duration_frame - 1)),
      (S ''sg_movie_aspect_ratio'', ratio),
      (S ''sg_uploaded_movie_frame_rate'', frame_rate),
      (S ''sg_movie_has_slate'', PBool True),
      (S ''sg_path_to_movie'', PStr path_to_movie)]"

text \<open>\<open>clip.versions[0].tracks[0].segments[0]\<close>\<close>

definition first_segment :: "host \<Rightarrow> obj \<Rightarrow> obj prog" where
  "first_segment h clip =
     bindp (children h clip ''versions'') (\<lambda>versions.
     bindp (lift (py_index versions 0)) (\<lambda>version.
     bindp (children h version ''tracks'') (\<lambda>tracks.
     bindp (lift (py_index tracks 0)) (\<lambda>track.
     bindp (children h track ''segments'') (\<lambda>segments.
     lift (py_index segments 0))))))"

text \<open>\<open>float(clip.frame_rate.split()[0])\<close>\<close>

definition frame_rate_float :: "host \<Rightarrow> obj \<Rightarrow> py_error + pyval" where
  "frame_rate_float h clip =
     (case py_index (split_ws h (str_attr h clip ''frame_rate'')) 0 of
        Inl e \<Rightarrow> Inl e
      | Inr word \<Rightarrow> (case py_float h word of None \<Rightarrow> Inl ValueError | Some f \<Rightarrow> Inr f))"

text \<open>One pass of the loop of \<open>create_versions\<close> over \<open>reel.clips\<close>.\<close>

definition create_version ::
  "host \<Rightarrow> obj \<Rightarrow> obj \<Rightarrow> pyval \<Rightarrow> pyval \<Rightarrow> obj \<Rightarrow> obj \<Rightarrow> pyval list \<Rightarrow> pyval list prog" where
  "create_version h shotgrid reel project path sg_authorization clip versions =
     bindp (first_segment h clip) (\<lambda>segment.
     let shot_name = str_attr h segment ''shot_name'' in
     bindp (lift (subscript project (S ''id''))) (\<lambda>project_id.
     bindp (invoke h (FindOne shotgrid (S ''Shot'')
              (PList [PList [PStr (S ''code''), PStr (S ''is''), PStr shot_name],
                      PList [PStr (S ''project''), PStr (S ''is''), entity ''Project'' project_id]])
              PNone)) (\<lambda>shot.
     bindp (lift (subscript shot (S ''id''))) (\<lambda>shot_id.
     bindp (invoke h (FindOne shotgrid (S ''Task'')
              (PList [PList [PStr (S ''project''), PStr (S ''is''), entity ''Project'' project_id],
                      PList [PStr (S ''entity''), PStr (S ''is''), entity ''Shot'' shot_id],
                      PList [PStr (S ''content''), PStr (S ''is''), PStr (S ''Comp'')]])
              PNone)) (\<lambda>task.
     let clip_name = str_attr h clip ''name'' in
     bindp (invoke h (FindOne shotgrid (S ''Version'')
              (PList [PList [PStr (S ''code''), PStr (S ''is''), PStr clip_name]])
              (PList [PStr (S ''description'')]))) (\<lambda>internal_version.
     bindp (lift (subscript task (S ''id''))) (\<lambda>task_id.
     bindp (lift (subscript internal_version (S ''description''))) (\<lambda>description.
     bindp (invoke h (ResolveEntity sg_authorization)) (\<lambda>user.
     bindp (lift (frame_rate_float h clip)) (\<lambda>frame_rate.
     bindp (lift (as_str path)) (\<lambda>path_str.
     let path_to_movie = path_join_all path_str
            [str_attr h reel ''name'', S ''h264'', clip_name @ S ''.mov''];
         data = version_data clip_name shot_id task_id project_id description user
                  (int_attr h clip ''duration.frame'') (val_attr h clip ''ratio'')
                  frame_rate path_to_movie in
     bindp (invoke h (Create shotgrid (S ''Version'') (PDict data))) (\<lambda>version.
     if truthy version
     then bindp (invoke h (ShowInConsole
                   (S ''Client Delivery: Shotgrid review version created for '' @ clip_name)
                   None None)) (\<lambda>_. ret (versions @ [version]))
     else ret versions))))))))))))"

fun create_versions_loop ::
  "host \<Rightarrow> obj \<Rightarrow> obj \<Rightarrow> pyval \<Rightarrow> pyval \<Rightarrow> obj \<Rightarrow> obj list \<Rightarrow> pyval list \<Rightarrow> pyval list prog" where
  "create_versions_loop h shotgrid reel project path sg_authorization [] versions = ret versions"
| "create_versions_loop h shotgrid reel project path sg_authorization (clip # clips) versions =
     bindp (create_version h shotgrid reel project path sg_authorization clip versions)
       (create_versions_loop h shotgrid reel project path sg_authorization clips)"

definition create_versions :: "host \<Rightarrow> obj \<Rightarrow> pyval \<Rightarrow> pyval \<Rightarrow> obj \<Rightarrow> pyval list prog" where
  "create_versions h reel project path sg_authorization =
     bindp (invoke_obj h (CreateSgConnection sg_authorization)) (\<lambda>shotgrid.
     bindp (children h reel ''clips'') (\<lambda>clips.
     create_versions_loop h shotgrid reel project path sg_authorization clips []))"

text \<open>
  The upload of one version: the \<open>try\<close> block evaluates \<open>version['id']\<close> and calls
  \<open>upload\<close>; the bare \<open>except\<close> sleeps one second and does the same once more, outside
  any \<open>try\<close>.
\<close>

definition upload_movie :: "host \<Rightarrow> obj \<Rightarrow> pyval \<Rightarrow> pystr \<Rightarrow> pyval prog" where
  "upload_movie h shotgrid version h264_path =
     bindp (lift (subscript version (S ''id''))) (\<lambda>version_id.
     invoke h (Upload shotgrid (S ''Version'') version_id h264_path (S ''sg_uploaded_movie'')))"

definition upload_with_retry :: "host \<Rightarrow> obj \<Rightarrow> pyval \<Rightarrow> pystr \<Rightarrow> pyval prog" where
  "upload_with_retry h shotgrid version h264_path =
     try_except (upload_movie h shotgrid version h264_path)
       (bindp (emit (Sleep 1)) (\<lambda>_. upload_movie h shotgrid version h264_path))"

text \<open>One pass of the loop of \<open>send_h264s_to_shotgrid\<close> over \<open>versions\<close>.\<close>

definition send_h264 :: "host \<Rightarrow> obj \<Rightarrow> pystr \<Rightarrow> pyval \<Rightarrow> unit prog" where
  "send_h264 h shotgrid generic_path version =
     bindp (lift (subscript version (S ''code''))) (\<lambda>code.
     bindp (lift (as_str code)) (\<lambda>code_str.
     let h264_path = py_replace generic_path (S ''VERSION_NAME'') code_str in
     bindp (upload_with_retry h shotgrid version h264_path) (\<lambda>_.
     bindp (invoke h (ShowInConsole (S ''Client Delivery: Movie uploaded to version '' @ code_str)
              None None)) (\<lambda>_. ret ()))))"

fun send_h264s_loop :: "host \<Rightarrow> obj \<Rightarrow> pystr \<Rightarrow> pyval list \<Rightarrow> unit prog" where
  "send_h264s_loop h shotgrid generic_path [] = ret ()"
| "send_h264s_loop h shotgrid generic_path (version # versions) =
     bindp (send_h264 h shotgrid generic_path version)
       (\<lambda>_. send_h264s_loop h shotgrid generic_path versions)"

definition send_h264s_to_shotgrid :: "host \<Rightarrow> obj \<Rightarrow> pyval list \<Rightarrow> pyval \<Rightarrow> obj \<Rightarrow> unit prog" where
  "send_h264s_to_shotgrid h reel versions path sg_authorization =
     bindp (invoke_obj h NewExporter) (\<lambda>exporter.
     bindp (invoke h (SetAttr exporter ''foreground'' (PBool True))) (\<lambda>_.
     bindp (invoke h (Export exporter reel (H264_PRESET h) path)) (\<lambda>_.
     bindp (invoke_obj h (CreateSgConnection sg_authorization)) (\<lambda>shotgrid.
     bindp (lift (as_str path)) (\<lambda>path_str.
     let generic_path = path_join_all path_str
            [str_attr h reel ''name'', S ''h264'', S ''VERSION_NAME.mov''] in
     send_h264s_loop h shotgrid generic_path versions)))))"

definition export_editorial_files :: "host \<Rightarrow> obj \<Rightarrow> pyval \<Rightarrow> unit prog" where
  "export_editorial_files h reel path =
     bindp (invoke_obj h NewExporter) (\<lambda>exporter.
     bindp (invoke h (SetAttr exporter ''foreground'' (PBool True))) (\<lambda>_.
     bindp (invoke h (Export exporter reel (DNX36_PRESET h) path)) (\<lambda>_.
     bindp (invoke h (ShowInConsole (S ''Client Delivery: DNx36 Check Files Exported'')
              None None)) (\<lambda>_. ret ()))))"

text \<open>\<open>[{'type': 'Version', 'id': version['id']} for version in versions]\<close>\<close>

fun version_links :: "pyval list \<Rightarrow> py_error + pyval list" where
  "version_links [] = Inr []"
| "version_links (version # versions) =
     (case subscript version (S ''id'') of
        Inl e \<Rightarrow> Inl e
      | Inr version_id \<Rightarrow>
          (case version_links versions of
             Inl e \<Rightarrow> Inl e
           | Inr links \<Rightarrow> Inr (entity ''Version'' version_id # links)))"

definition create_playlist :: "host \<Rightarrow> pystr \<Rightarrow> pyval list \<Rightarrow> pyval \<Rightarrow> obj \<Rightarrow> unit prog" where
  "create_playlist h name versions project sg_authorization =
     bindp (invoke_obj h (CreateSgConnection sg_authorization)) (\<lambda>shotgrid.
     bindp (lift (subscript project (S ''id''))) (\<lambda>project_id.
     bindp (lift (version_links versions)) (\<lambda>links.
     let playlist_data = [(S ''code'', PStr name),
                          (S ''project'', entity ''Project'' project_id),
                          (S ''versions'', PList links)] in
     bindp (invoke h (Create shotgrid (S ''Playlist'') (PDict playlist_data))) (\<lambda>_.
     bindp (invoke h (ShowInConsole
              (S ''Client Delivery: Playlist '' @ [34] @ name @ [34] @ S '' created'')
              None None))
       (\<lambda>_. ret ())))))"

text \<open>
  Which \<open>return\<close> of \<open>create_client_delivery\<close> a run reached: the two that bail out, or
  the last one.
\<close>

datatype delivery = No_path_selected | Not_linked | Delivered

definition create_client_delivery :: "host \<Rightarrow> obj list \<Rightarrow> delivery prog" where
  "create_client_delivery h selection =
     bindp (lift (py_index selection 0)) (\<lambda>mezzanines_reel.
     bindp (invoke h (BrowserShow (S ''/data'') True (S ''Select Destination''))) (\<lambda>_.
     bindp (\<lambda>w. (py_index (browser_selection h (trace w)) 0, w)) (\<lambda>export_path.
     if \<not> truthy export_path
     then bindp (invoke h (ShowInConsole (S ''Playlist export cancelled: no path selected'')
                   (Some (S ''error'')) (Some 5))) (\<lambda>_. ret No_path_selected)
     else
     bindp (invoke h CurrentEngine) (\<lambda>flame_engine.
     case flame_engine of
       PNone \<Rightarrow>
         bindp (invoke h (ShowInConsole
                  (S ''Playlist export cancelled: project must be linked to ShotGrid'')
                  (Some (S ''error'')) (Some 5))) (\<lambda>_. ret Not_linked)
     | PObj engine \<Rightarrow>
         bindp (invoke_obj h GetAuthenticatedUser) (\<lambda>sg_auth.
         let project = val_attr h engine ''context.project'' in
         bindp (export_editorial_files h mezzanines_reel export_path) (\<lambda>_.
         bindp (create_versions h mezzanines_reel project export_path sg_auth) (\<lambda>sg_versions.
         bindp (send_h264s_to_shotgrid h mezzanines_reel sg_versions export_path sg_auth) (\<lambda>_.
         bindp (create_playlist h (str_attr h mezzanines_reel ''name'') sg_versions project
                  sg_auth) (\<lambda>_. ret Delivered)))))
     | _ \<Rightarrow> raise AttributeError))))"

text \<open>\<open>scope_reel\<close>, the visibility test of the menu action.\<close>

definition scope_reel :: "host \<Rightarrow> obj list \<Rightarrow> py_error + bool" where
  "scope_reel h selection =
     (if length selection > 1 then Inr False
      else case py_index selection 0 of
             Inl e \<Rightarrow> Inl e
           | Inr x \<Rightarrow>
               if \<not> isinstance h x ''PyReel'' then Inr False
               else if py_in (S ''comp_submissions'') (str_attr h x ''name'') then Inr True
               else Inr False)"

section \<open>Script two: \<open>create_shot_masters.py\<close>\<close>

text \<open>\<open>scope_sequence\<close>, the visibility test of the menu action.\<close>

definition scope_sequence :: "host \<Rightarrow> obj list \<Rightarrow> py_error + bool" where
  "scope_sequence h selection =
     (if length selection \<noteq> 1 then Inr False
      else case py_index selection 0 of
             Inl e \<Rightarrow> Inl e
           | Inr x \<Rightarrow>
               if \<not> isinstance h x ''PySequence'' then Inr False
               else if \<not> py_endswith (str_attr h x ''name'') (S ''comp_submissions'') then Inr False
               else Inr True)"

section \<open>Notions used to state the properties\<close>

text \<open>Reading a numeral back gives the number.\<close>

definition nat_of_digits :: "pystr \<Rightarrow> nat" where
  "nat_of_digits ds = foldl (\<lambda>a d. 10 * a + (d - 48)) 0 ds"

text \<open>
  Line \<open>j\<close> of the template is a line that \<open>generate_slate\<close> searches (it starts with
  \<open>Text\<close>) and holds the code points of \<open>token\<close>.
\<close>

definition line_matches :: "pystr list \<Rightarrow> pystr \<Rightarrow> nat \<Rightarrow> bool" where
  "line_matches t token j =
     (j < length t \<and> py_startswith (t ! j) (S ''Text'')
      \<and> py_in (ascii_convert token) (t ! j))"

text \<open>A template of three lines with one token, for the examples.\<close>

definition demo_template :: "pystr list" where
  "demo_template =
     [S ''TextLength 6\<newline>'', S ''Text 60 67 79 68 69 62\<newline>'', S ''End\<newline>'']"

text \<open>Reading an integer or a string field of a record sent to the tracking service.\<close>

fun int_field :: "pyval \<Rightarrow> pystr \<Rightarrow> int option" where
  "int_field (PDict d) key = (case map_of d key of Some (PInt i) \<Rightarrow> Some i | _ \<Rightarrow> None)"
| "int_field v key = None"

fun str_field :: "pyval \<Rightarrow> pystr \<Rightarrow> pystr option" where
  "str_field (PDict d) key = (case map_of d key of Some (PStr s) \<Rightarrow> Some s | _ \<Rightarrow> None)"
| "str_field v key = None"

text \<open>
  An entry of the trace that creates a Version record carries the frame numbers of one
  clip: first frame 1001, last frame the clip's duration plus 999, frame count the
  duration minus one.
\<close>

definition version_frames :: "host \<Rightarrow> entry \<Rightarrow> bool" where
  "version_frames h e =
     (\<forall>sg data v. e = (Create sg (S ''Version'') data, v) \<longrightarrow>
        (\<exists>clip first_frame last_frame frame_count.
           str_field data (S ''code'') = Some (str_attr h clip ''name'')
           \<and> int_field data (S ''sg_first_frame'') = Some first_frame
           \<and> int_field data (S ''sg_last_frame'') = Some last_frame
           \<and> int_field data (S ''frame_count'') = Some frame_count
           \<and> first_frame = 1001
           \<and> last_frame = int_attr h clip ''duration.frame'' + 999
           \<and> frame_count = int_attr h clip ''duration.frame'' - 1
           \<and> last_frame - first_frame + 1 = frame_count))"

text \<open>
  A host for the examples: every call succeeds but the first attempt of each upload, every
  container has one element (a version of a created sequence has two tracks), and every
  search of the tracking service finds a record.
\<close>

definition demo_host :: host where
  "demo_host = \<lparr>
     respond = (\<lambda>tr c. case c of
         FindOne sg t f fl \<Rightarrow>
           Some (PDict [(S ''id'', PInt 7), (S ''description'', PStr (S ''note'')),
                        (S ''user'', PDict [(S ''name'', PStr (S ''Ann''))])])
       | Create sg t d \<Rightarrow>
           (case d of PDict kv \<Rightarrow> Some (PDict ((S ''id'', PInt 100) # kv)) | _ \<Rightarrow> None)
       | Upload sg t i p f \<Rightarrow>
           (if (Upload sg t i p f, None) \<in> set tr then Some PNone else None)
       | CurrentEngine \<Rightarrow> Some (PObj 50)
       | GetColourSpace x \<Rightarrow> Some (PStr (S ''ACEScg''))
       | ResolveEntity x \<Rightarrow> Some (PDict [(S ''type'', PStr (S ''HumanUser'')), (S ''id'', PInt 3)])
       | _ \<Rightarrow> Some PNone),
     respond_obj = (\<lambda>tr c. Some (100 + length tr)),
     respond_objs = (\<lambda>tr c. Some [100 + length tr]),
     str_attr = (\<lambda>x a. if a = ''type'' then S ''Video Segment''
                        else if a = ''frame_rate'' then S ''23.976 fps''
                        else if a = ''shot_name'' then S ''sh010''
                        else S ''sh010_comp_v001''),
     int_attr = (\<lambda>x a. if a = ''head'' then 8 else if a = ''width'' then 3840
                        else if a = ''height'' then 2160 else 48),
     val_attr = (\<lambda>x a. if a = ''context.project''
                        then PDict [(S ''id'', PInt 1), (S ''name'', PStr (S ''Demo''))]
                        else PFloat (S ''1.778'')),
     obj_attr = (\<lambda>x a. 60),
     list_attr = (\<lambda>tr x a. if a = ''tracks'' \<and> x \<noteq> 2 then [x + 1, x + 2]
                           else if a = ''libraries'' \<or> a = ''folders'' then []
                           else [x + 1]),
     isinstance = (\<lambda>x c. True),
     browser_selection = (\<lambda>tr. [PStr (S ''/out'')]),
     script_path = S ''/opt/scripts'',
     environ = (\<lambda>k. None),
     read_lines = (\<lambda>p. Some demo_template),
     today = S ''1/2/2026'',
     split_ws = (\<lambda>s. [S ''23.976'', S ''fps'']),
     py_float = (\<lambda>s. Some (PFloat s)) \<rparr>"

definition demo_world :: world where
  "demo_world = \<lparr> trace = [], temp_exists = False, files = [] \<rparr>"

section \<open>Properties\<close>

subsection \<open>Decimal numerals and splitting\<close>

lemma str_nat_digits: "c \<in> set (str_nat n) \<Longrightarrow> 48 \<le> c \<and> c \<le> 57"
proof (induction n rule: str_nat.induct)
  case (1 n)
  show ?case
  proof (cases "n < 10")
    case True
    with "1.prems" show ?thesis by (simp add: str_nat.simps [of n])
  next
    case False
    with "1.prems" "1.IH" show ?thesis
      by (auto simp: str_nat.simps [of n])
  qed
qed

lemma nat_of_digits_str_nat: "nat_of_digits (str_nat n) = n"
proof (induction n rule: str_nat.induct)
  case (1 n)
  show ?case
  proof (cases "n < 10")
    case True
    then show ?thesis by (simp add: str_nat.simps [of n] nat_of_digits_def)
  next
    case False
    with "1.IH" show ?thesis
      by (simp add: str_nat.simps [of n] nat_of_digits_def)
  qed
qed

lemma str_nat_inj: "str_nat m = str_nat n \<Longrightarrow> m = n"
  by (metis nat_of_digits_str_nat)

lemma py_split_no_sep: "sep \<notin> set x \<Longrightarrow> py_split sep x = [x]"
  by (induction x) auto

lemma py_split_append:
  "sep \<notin> set x \<Longrightarrow> py_split sep (x @ sep # r) = x # py_split sep r"
  by (induction x) auto

lemma py_split_join:
  "xs \<noteq> [] \<Longrightarrow> \<forall>x \<in> set xs. sep \<notin> set x \<Longrightarrow> py_split sep (py_join [sep] xs) = xs"
proof (induction "[sep]" xs rule: py_join.induct)
  case 1
  then show ?case by simp
next
  case (2 x)
  then show ?case by (simp add: py_split_no_sep)
next
  case (3 x y ys)
  then show ?case by (simp add: py_split_append)
qed

lemma replace_from_single:
  "replace_from s [a] [b] = map (\<lambda>c. if c = a then b else c) s"
  by (induction s) auto

lemma py_replace_single:
  "py_replace s [a] [b] = map (\<lambda>c. if c = a then b else c) s"
  by (simp add: py_replace_def replace_from_single)

subsection \<open>\<open>ascii_convert\<close>\<close>

lemma ascii_list_eq:
  "filter (\<lambda>a. a \<noteq> 194) (py_replace (py_replace t [8220] [34]) [8221] [34]) =
   filter (\<lambda>a. a \<noteq> 194) (map (\<lambda>c. if c = 8220 \<or> c = 8221 then 34 else c) t)"
  by (simp add: py_replace_single cong: if_cong) (induction t, auto)

lemma tokens_of_join:
  "py_split 32 (py_join [32] (map str_nat ns)) = (if ns = [] then [[]] else map str_nat ns)"
proof (cases "ns = []")
  case True
  then show ?thesis by simp
next
  case False
  have "\<forall>x \<in> set (map str_nat ns). 32 \<notin> set x"
    using str_nat_digits by fastforce
  with False show ?thesis by (simp add: py_split_join)
qed

text \<open>
  C9. For every string, \<open>ascii_convert\<close> returns the decimal code points, joined by single
  spaces, of the string in which both curly quotes have become the straight quote (code
  point 34) and from which every character of code point 194 has been dropped. So no
  token of the output, split at the spaces, is the numeral 194, and the empty string gives
  the empty string.
\<close>

theorem ascii_convert_spec:
  "ascii_convert t =
     py_join [32] (map str_nat
       (filter (\<lambda>a. a \<noteq> 194) (map (\<lambda>c. if c = 8220 \<or> c = 8221 then 34 else c) t)))
   \<and> str_nat 194 \<notin> set (py_split 32 (ascii_convert t))
   \<and> ascii_convert [] = []"
proof -
  let ?ns = "filter (\<lambda>a. a \<noteq> 194) (map (\<lambda>c. if c = 8220 \<or> c = 8221 then 34 else c) t)"
  have eq: "ascii_convert t = py_join [32] (map str_nat ?ns)"
    by (simp only: ascii_convert_def Let_def ascii_list_eq)
  have "str_nat 194 \<notin> set (map str_nat ?ns)"
  proof
    assume "str_nat 194 \<in> set (map str_nat ?ns)"
    then obtain n where "n \<in> set ?ns" and "str_nat 194 = str_nat n" by auto
    then show False using str_nat_inj [of 194 n] by auto
  qed
  moreover have "str_nat 194 \<noteq> []"
    by (simp add: str_nat.simps [of 194])
  ultimately have "str_nat 194 \<notin> set (py_split 32 (ascii_convert t))"
    by (simp add: eq tokens_of_join)
  moreover have "ascii_convert [] = []"
    by (simp add: ascii_convert_def py_replace_def)
  ultimately show ?thesis using eq by simp
qed

subsection \<open>Dictionaries and \<open>update_setup\<close>\<close>

lemma map_of_dict_set: "map_of (dict_set d k v) = (map_of d)(k \<mapsto> v)"
  by (induction d) (auto simp: fun_upd_twist)

lemma keys_dict_set: "set (map fst (dict_set d k v)) = insert k (set (map fst d))"
proof (induction d)
  case Nil
  show ?case by simp
next
  case (Cons p d)
  obtain a b where p: "p = (a, b)" by (cases p)
  show ?case using Cons p by (cases "a = k") auto
qed

lemma distinct_dict_set:
  "distinct (map fst d) \<Longrightarrow> distinct (map fst (dict_set d k v))"
proof (induction d)
  case Nil
  then show ?case by simp
next
  case (Cons p d)
  obtain a b where p: "p = (a, b)" by (cases p)
  show ?case
  proof (cases "a = k")
    case True
    then show ?thesis using Cons.prems p by simp
  next
    case False
    have "a \<notin> set (map fst (dict_set d k v))"
      using Cons.prems p False by (simp only: keys_dict_set) auto
    then show ?thesis using Cons p False by simp
  qed
qed

lemma py_pos_in_range: "0 \<le> i \<Longrightarrow> i < int n \<Longrightarrow> py_pos n i = Some (nat i)"
  by (simp add: py_pos_def)

lemma update_setup_nth:
  assumes "\<forall>(k, v) \<in> set d. 0 \<le> k \<and> k < int (length stp)" and "distinct (map fst d)"
  shows "\<exists>final. update_setup stp d = Inr final \<and> length final = length stp
           \<and> (\<forall>j < length stp. final ! j =
                 (case map_of d (int j) of Some v \<Rightarrow> v | None \<Rightarrow> stp ! j))"
  using assms
proof (induction d arbitrary: stp)
  case Nil
  then show ?case by simp
next
  case (Cons p d)
  obtain k v where p: "p = (k, v)" by (cases p)
  from Cons.prems p have k: "0 \<le> k" "k < int (length stp)" by auto
  let ?s = "stp[nat k := v]"
  have set1: "py_setitem stp k v = Inr ?s"
    using k by (simp add: py_setitem_def py_pos_in_range)
  have "\<forall>(k, v) \<in> set d. 0 \<le> k \<and> k < int (length ?s)" using Cons.prems by auto
  moreover have "distinct (map fst d)" using Cons.prems by simp
  ultimately obtain final where f: "update_setup ?s d = Inr final" "length final = length ?s"
    "\<forall>j < length ?s. final ! j = (case map_of d (int j) of Some v \<Rightarrow> v | None \<Rightarrow> ?s ! j)"
    using Cons.IH [of ?s] by blast
  have nk: "map_of d k = None"
    using Cons.prems(2) p by (simp add: map_of_eq_None_iff)
  have "\<forall>j < length stp. final ! j =
          (case map_of (p # d) (int j) of Some v \<Rightarrow> v | None \<Rightarrow> stp ! j)"
  proof (intro allI impI)
    fix j assume j: "j < length stp"
    show "final ! j = (case map_of (p # d) (int j) of Some v \<Rightarrow> v | None \<Rightarrow> stp ! j)"
    proof (cases "int j = k")
      case True
      then have kj: "nat k = j" by simp
      have "final ! j = v" using f(3) j nk kj True by simp
      moreover have "map_of (p # d) (int j) = Some v" using p True by simp
      ultimately show ?thesis by simp
    next
      case False
      then have "nat k \<noteq> j" using k by auto
      then show ?thesis using f(3) j False p by (auto split: option.splits)
    qed
  qed
  then show ?case using f set1 p by simp
qed

subsection \<open>One pass of \<open>replace_token\<close>\<close>

lemma fold_distinct:
  "distinct (map fst d) \<Longrightarrow> distinct (map fst (fold (token_step pat rep tln) tls d))"
  by (induction tls arbitrary: d) (auto simp: token_step_def distinct_dict_set)

lemma fold_map_of:
  assumes "sorted_wrt (<) (map fst tls)"
  shows "map_of (fold (token_step pat rep tln) tls d) k =
     (if \<exists>line. map_of tls (k + 1) = Some line \<and> py_in pat line then Some tln
      else (case map_of tls k of
              Some line \<Rightarrow> if py_in pat line then Some (py_replace line pat rep) else map_of d k
            | None \<Rightarrow> map_of d k))"
  using assms
proof (induction tls arbitrary: d)
  case Nil
  then show ?case by simp
next
  case (Cons p tls)
  obtain i l where p: "p = (i, l)" by (cases p)
  from Cons.prems p have gt: "\<forall>x \<in> set tls. i < fst x" and srt: "sorted_wrt (<) (map fst tls)"
    by auto
  have none: "\<And>j. j \<le> i \<Longrightarrow> map_of tls j = None"
  proof -
    fix j assume "j \<le> i"
    then have "j \<notin> fst ` set tls" using gt by force
    then show "map_of tls j = None" by (simp add: map_of_eq_None_iff)
  qed
  let ?d' = "token_step pat rep tln (i, l) d"
  have IH: "map_of (fold (token_step pat rep tln) tls ?d') k =
     (if \<exists>line. map_of tls (k + 1) = Some line \<and> py_in pat line then Some tln
      else (case map_of tls k of
              Some line \<Rightarrow> if py_in pat line then Some (py_replace line pat rep) else map_of ?d' k
            | None \<Rightarrow> map_of ?d' k))"
    using Cons.IH [OF srt] .
  have d': "map_of ?d' k = (if py_in pat l then
               (if k = i - 1 then Some tln else if k = i then Some (py_replace l pat rep) else map_of d k)
             else map_of d k)"
    by (simp add: token_step_def map_of_dict_set)
  show ?case
  proof (cases "k + 1 \<le> i")
    case True
    then have "map_of tls (k + 1) = None" "map_of tls k = None" using none by auto
    then show ?thesis using True p IH d' by auto
  next
    case False
    show ?thesis
    proof (cases "k = i")
      case True
      have "map_of tls i = None" using none by simp
      then show ?thesis using True p IH d' by (auto split: option.splits)
    next
      case False
      with \<open>\<not> k + 1 \<le> i\<close> have "k \<noteq> i - 1" "k \<noteq> i" "k + 1 \<noteq> i" by auto
      then show ?thesis using p IH d' by (auto split: option.splits)
    qed
  qed
qed

lemma text_lines_of_set:
  "((k, line) \<in> set (text_lines_of t)) =
     (0 \<le> k \<and> nat k < length t \<and> line = t ! nat k \<and> py_startswith line (S ''Text''))"
proof -
  have "((k, line) \<in> set (zip (map int [0..<length t]) t)) =
          (0 \<le> k \<and> nat k < length t \<and> line = t ! nat k)"
  proof
    assume "(k, line) \<in> set (zip (map int [0..<length t]) t)"
    then obtain n where "n < length t" "k = int n" "line = t ! n"
      by (auto simp: in_set_zip)
    then show "0 \<le> k \<and> nat k < length t \<and> line = t ! nat k" by simp
  next
    assume a: "0 \<le> k \<and> nat k < length t \<and> line = t ! nat k"
    then have "zip (map int [0..<length t]) t ! nat k = (k, line)" by simp
    moreover have "nat k < length (zip (map int [0..<length t]) t)" using a by simp
    ultimately show "(k, line) \<in> set (zip (map int [0..<length t]) t)"
      by (metis nth_mem)
  qed
  then show ?thesis by (simp add: text_lines_of_def)
qed

lemma text_lines_of_sorted: "sorted_wrt (<) (map fst (text_lines_of t))"
proof -
  have "sorted_wrt (<) (map int [0..<length t])"
    by (simp add: sorted_wrt_map)
  moreover have "map fst (zip (map int [0..<length t]) t) = map int [0..<length t]"
    by simp
  ultimately have "sorted_wrt (<) (map fst (zip (map int [0..<length t]) t))"
    by simp
  then have "sorted_wrt (\<lambda>a b. fst a < fst b) (zip (map int [0..<length t]) t)"
    by (simp only: sorted_wrt_map)
  then have "sorted_wrt (\<lambda>a b. fst a < fst b) (text_lines_of t)"
    unfolding text_lines_of_def by (rule sorted_wrt_filter)
  then show ?thesis by (simp only: sorted_wrt_map)
qed

lemma text_lines_of_map_of:
  "map_of (text_lines_of t) k =
     (if 0 \<le> k \<and> nat k < length t \<and> py_startswith (t ! nat k) (S ''Text'') then Some (t ! nat k) else None)"
proof -
  have d: "distinct (map fst (text_lines_of t))"
    using text_lines_of_sorted [of t] by (simp add: strict_sorted_iff)
  show ?thesis
  proof (cases "0 \<le> k \<and> nat k < length t \<and> py_startswith (t ! nat k) (S ''Text'')")
    case True
    then have "(k, t ! nat k) \<in> set (text_lines_of t)" by (simp add: text_lines_of_set)
    then show ?thesis using True d by simp
  next
    case False
    then have "\<forall>line. (k, line) \<notin> set (text_lines_of t)" by (auto simp: text_lines_of_set)
    then have "map_of (text_lines_of t) k = None"
      by (metis map_of_SomeD not_Some_eq)
    then show ?thesis using False by simp
  qed
qed

lemma replace_token_fold:
  "str_value (value_or_space v) = Inr s \<Longrightarrow>
   replace_token token v tls =
     Inr (fold (token_step (ascii_convert token) (ascii_convert s) (textlength_line (length s))) tls [])"
  by (simp add: replace_token_def Let_def)

lemma new_lines_map_of:
  "map_of (fold (token_step (ascii_convert token) rep tln) (text_lines_of t) []) k =
     (if 0 \<le> k + 1 \<and> line_matches t token (nat (k + 1)) then Some tln
      else if 0 \<le> k \<and> line_matches t token (nat k)
           then Some (py_replace (t ! nat k) (ascii_convert token) rep)
           else None)"
  by (simp add: fold_map_of [OF text_lines_of_sorted] text_lines_of_map_of line_matches_def)

lemma token_pass:
  assumes v: "str_value (value_or_space v) = Inr s"
    and len: "length cur = length t"
    and l0: "\<not> line_matches t token 0"
  shows "\<exists>nl cur'. replace_token token v (text_lines_of t) = Inr nl
           \<and> update_setup cur nl = Inr cur' \<and> length cur' = length t
           \<and> (\<forall>k < length t. cur' ! k =
                 (if line_matches t token (Suc k) then textlength_line (length s)
                  else if line_matches t token k
                       then py_replace (t ! k) (ascii_convert token) (ascii_convert s)
                       else cur ! k))"
proof -
  let ?nl = "fold (token_step (ascii_convert token) (ascii_convert s) (textlength_line (length s)))
               (text_lines_of t) []"
  have rt: "replace_token token v (text_lines_of t) = Inr ?nl"
    using v by (rule replace_token_fold)
  have dist: "distinct (map fst ?nl)" by (simp add: fold_distinct)
  have range: "\<forall>(k, x) \<in> set ?nl. 0 \<le> k \<and> k < int (length cur)"
  proof (clarify)
    fix k x assume "(k, x) \<in> set ?nl"
    then have m: "map_of ?nl k = Some x" using dist by simp
    show "0 \<le> k \<and> k < int (length cur)"
    proof (cases "0 \<le> k + 1 \<and> line_matches t token (nat (k + 1))")
      case True
      then have "nat (k + 1) \<noteq> 0" using l0 by metis
      then show ?thesis using True len by (auto simp: line_matches_def)
    next
      case False
      then have "0 \<le> k \<and> line_matches t token (nat k)"
        using m by (simp add: new_lines_map_of split: if_splits)
      then show ?thesis using len by (auto simp: line_matches_def)
    qed
  qed
  obtain cur' where c: "update_setup cur ?nl = Inr cur'" "length cur' = length cur"
    "\<forall>j < length cur. cur' ! j = (case map_of ?nl (int j) of Some x \<Rightarrow> x | None \<Rightarrow> cur ! j)"
    using update_setup_nth [OF range dist] by blast
  have "\<forall>k < length t. cur' ! k =
                 (if line_matches t token (Suc k) then textlength_line (length s)
                  else if line_matches t token k
                       then py_replace (t ! k) (ascii_convert token) (ascii_convert s)
                       else cur ! k)"
  proof (intro allI impI)
    fix k assume "k < length t"
    then have "cur' ! k = (case map_of ?nl (int k) of Some x \<Rightarrow> x | None \<Rightarrow> cur ! k)"
      using c(3) len by simp
    moreover have "nat (int k + 1) = Suc k" by simp
    ultimately show "cur' ! k =
                 (if line_matches t token (Suc k) then textlength_line (length s)
                  else if line_matches t token k
                       then py_replace (t ! k) (ascii_convert token) (ascii_convert s)
                       else cur ! k)"
      by (simp add: new_lines_map_of)
  qed
  then show ?thesis using rt c len by simp
qed

subsection \<open>The loop of \<open>generate_slate\<close>\<close>

lemma fill_setup_lines:
  assumes "length cur = length t"
    and "\<forall>(token, v) \<in> set info. \<exists>s. str_value (value_or_space v) = Inr s"
    and "distinct (map fst info)"
    and "\<forall>a \<in> fst ` set info. \<forall>b \<in> fst ` set info. \<forall>j.
           line_matches t a j \<and> line_matches t b j \<longrightarrow> a = b"
    and "\<forall>a \<in> fst ` set info. \<forall>b \<in> fst ` set info. \<forall>j.
           line_matches t a (Suc j) \<longrightarrow> \<not> line_matches t b j"
    and "\<forall>a \<in> fst ` set info. \<not> line_matches t a 0"
  shows "\<exists>final. fill_setup (text_lines_of t) info cur = Inr final \<and> length final = length t
     \<and> (\<forall>j < length t.
          (\<forall>(token, v) \<in> set info. \<forall>s. str_value (value_or_space v) = Inr s \<longrightarrow>
             (line_matches t token j \<longrightarrow>
                final ! j = py_replace (t ! j) (ascii_convert token) (ascii_convert s))
             \<and> (line_matches t token (Suc j) \<longrightarrow> final ! j = textlength_line (length s)))
          \<and> ((\<forall>token \<in> fst ` set info.
                 \<not> line_matches t token j \<and> \<not> line_matches t token (Suc j))
               \<longrightarrow> final ! j = cur ! j))"
  using assms
proof (induction info arbitrary: cur)
  case Nil
  show ?case using Nil.prems(1) by simp
next
  case (Cons p info)
  obtain token v where p: "p = (token, v)" by (cases p)
  have "\<exists>s. str_value (value_or_space v) = Inr s"
    using Cons.prems(2) p by simp
  then obtain s where s: "str_value (value_or_space v) = Inr s" ..
  have l0: "\<not> line_matches t token 0" using Cons.prems(6) p by simp
  obtain nl cur' where step: "replace_token token v (text_lines_of t) = Inr nl"
      "update_setup cur nl = Inr cur'" "length cur' = length t"
      "\<forall>k < length t. cur' ! k =
                 (if line_matches t token (Suc k) then textlength_line (length s)
                  else if line_matches t token k
                       then py_replace (t ! k) (ascii_convert token) (ascii_convert s)
                       else cur ! k)"
    using token_pass [OF s Cons.prems(1) l0] by blast
  have notin: "token \<notin> fst ` set info" using Cons.prems(3) p by simp
  have sub: "fst ` set info \<subseteq> fst ` set (p # info)" by auto
  have tin: "token \<in> fst ` set (p # info)" using p by simp
  have one: "\<And>b j. b \<in> fst ` set info \<Longrightarrow> line_matches t token j \<Longrightarrow> \<not> line_matches t b j"
    using Cons.prems(4) tin sub notin by blast
  have ap1: "\<And>b j. b \<in> fst ` set info \<Longrightarrow> line_matches t token (Suc j) \<Longrightarrow> \<not> line_matches t b j"
    using Cons.prems(5) tin sub by blast
  have ap2: "\<And>b j. b \<in> fst ` set info \<Longrightarrow> line_matches t token j \<Longrightarrow> \<not> line_matches t b (Suc j)"
    using Cons.prems(5) tin sub by blast
  have ap0: "\<And>j. line_matches t token (Suc j) \<Longrightarrow> \<not> line_matches t token j"
    using Cons.prems(5) tin by blast
  have "\<exists>final. fill_setup (text_lines_of t) info cur' = Inr final \<and> length final = length t
     \<and> (\<forall>j < length t.
          (\<forall>(token, v) \<in> set info. \<forall>s. str_value (value_or_space v) = Inr s \<longrightarrow>
             (line_matches t token j \<longrightarrow>
                final ! j = py_replace (t ! j) (ascii_convert token) (ascii_convert s))
             \<and> (line_matches t token (Suc j) \<longrightarrow> final ! j = textlength_line (length s)))
          \<and> ((\<forall>token \<in> fst ` set info.
                 \<not> line_matches t token j \<and> \<not> line_matches t token (Suc j))
               \<longrightarrow> final ! j = cur' ! j))"
  proof (rule Cons.IH [OF step(3)])
    show "\<forall>(token, v) \<in> set info. \<exists>s. str_value (value_or_space v) = Inr s"
      using Cons.prems(2) by simp
    show "distinct (map fst info)" using Cons.prems(3) by simp
    show "\<forall>a \<in> fst ` set info. \<forall>b \<in> fst ` set info. \<forall>j.
           line_matches t a j \<and> line_matches t b j \<longrightarrow> a = b"
      using Cons.prems(4) sub by blast
    show "\<forall>a \<in> fst ` set info. \<forall>b \<in> fst ` set info. \<forall>j.
           line_matches t a (Suc j) \<longrightarrow> \<not> line_matches t b j"
      using Cons.prems(5) sub by blast
    show "\<forall>a \<in> fst ` set info. \<not> line_matches t a 0"
      using Cons.prems(6) sub by blast
  qed
  then obtain final where fin: "fill_setup (text_lines_of t) info cur' = Inr final"
      "length final = length t"
      and all: "\<forall>j < length t.
          (\<forall>(token, v) \<in> set info. \<forall>s. str_value (value_or_space v) = Inr s \<longrightarrow>
             (line_matches t token j \<longrightarrow>
                final ! j = py_replace (t ! j) (ascii_convert token) (ascii_convert s))
             \<and> (line_matches t token (Suc j) \<longrightarrow> final ! j = textlength_line (length s)))
          \<and> ((\<forall>token \<in> fst ` set info.
                 \<not> line_matches t token j \<and> \<not> line_matches t token (Suc j))
               \<longrightarrow> final ! j = cur' ! j)"
    by (elim exE conjE) (rule that)
  have old: "(line_matches t a j \<longrightarrow>
                     final ! j = py_replace (t ! j) (ascii_convert a) (ascii_convert s'))
                  \<and> (line_matches t a (Suc j) \<longrightarrow> final ! j = textlength_line (length s'))"
    if "j < length t" "(a, b) \<in> set info" "str_value (value_or_space b) = Inr s'" for j a b s'
  proof -
    from all that(1) have "\<forall>(token, v) \<in> set info. \<forall>s. str_value (value_or_space v) = Inr s \<longrightarrow>
             (line_matches t token j \<longrightarrow>
                final ! j = py_replace (t ! j) (ascii_convert token) (ascii_convert s))
             \<and> (line_matches t token (Suc j) \<longrightarrow> final ! j = textlength_line (length s))"
      by (rule conjunct1 [OF mp [OF spec [where x = j]]])
    from bspec [OF this that(2)] that(3) show ?thesis by simp
  qed
  have keep: "final ! j = cur' ! j"
    if "j < length t" "\<forall>token \<in> fst ` set info.
                     \<not> line_matches t token j \<and> \<not> line_matches t token (Suc j)" for j
  proof -
    from all that(1) have "(\<forall>token \<in> fst ` set info.
                 \<not> line_matches t token j \<and> \<not> line_matches t token (Suc j))
               \<longrightarrow> final ! j = cur' ! j"
      by (rule conjunct2 [OF mp [OF spec [where x = j]]])
    with that(2) show ?thesis by (rule rev_mp)
  qed
  have run: "fill_setup (text_lines_of t) (p # info) cur = Inr final"
    using p step fin by simp
  have "\<forall>j < length t.
          (\<forall>(a, b) \<in> set (p # info). \<forall>s'. str_value (value_or_space b) = Inr s' \<longrightarrow>
             (line_matches t a j \<longrightarrow>
                final ! j = py_replace (t ! j) (ascii_convert a) (ascii_convert s'))
             \<and> (line_matches t a (Suc j) \<longrightarrow> final ! j = textlength_line (length s')))
          \<and> ((\<forall>a \<in> fst ` set (p # info).
                 \<not> line_matches t a j \<and> \<not> line_matches t a (Suc j))
               \<longrightarrow> final ! j = cur ! j)"
  proof (intro allI impI conjI ballI)
    fix j assume j: "j < length t"
    assume "\<forall>a \<in> fst ` set (p # info). \<not> line_matches t a j \<and> \<not> line_matches t a (Suc j)"
    then have "\<forall>a \<in> fst ` set info. \<not> line_matches t a j \<and> \<not> line_matches t a (Suc j)"
      and "\<not> line_matches t token j" "\<not> line_matches t token (Suc j)"
      using p by auto
    then show "final ! j = cur ! j" using keep [OF j] step(4) j by simp
  next
    fix j x assume j: "j < length t" and x: "x \<in> set (p # info)"
    show "case x of (a, b) \<Rightarrow> \<forall>s'. str_value (value_or_space b) = Inr s' \<longrightarrow>
             (line_matches t a j \<longrightarrow>
                final ! j = py_replace (t ! j) (ascii_convert a) (ascii_convert s'))
             \<and> (line_matches t a (Suc j) \<longrightarrow> final ! j = textlength_line (length s'))"
    proof (cases "x = p")
      case True
      have a: "line_matches t token j \<Longrightarrow>
                 final ! j = py_replace (t ! j) (ascii_convert token) (ascii_convert s)"
      proof -
        assume m: "line_matches t token j"
        then have "\<forall>b \<in> fst ` set info. \<not> line_matches t b j \<and> \<not> line_matches t b (Suc j)"
          using one ap2 by blast
        then have "final ! j = cur' ! j" using keep [OF j] by blast
        moreover have "\<not> line_matches t token (Suc j)" using ap0 m by blast
        ultimately show ?thesis using step(4) j m by simp
      qed
      have b: "line_matches t token (Suc j) \<Longrightarrow> final ! j = textlength_line (length s)"
      proof -
        assume m: "line_matches t token (Suc j)"
        then have "\<forall>b \<in> fst ` set info. \<not> line_matches t b j \<and> \<not> line_matches t b (Suc j)"
          using one ap1 by blast
        then have "final ! j = cur' ! j" using keep [OF j] by blast
        then show ?thesis using step(4) j m by simp
      qed
      show ?thesis using True p s a b by auto
    next
      case False
      obtain a b where ab: "x = (a, b)" by (cases x)
      from False x ab have "(a, b) \<in> set info" by simp
      from old [OF j this] show ?thesis unfolding ab by simp
    qed
  qed
  then show ?case using run fin(2) by blast
qed

text \<open>The equations that evaluate the slate functions on a given template.\<close>

lemmas slate_eval =
  fill_slate_def text_lines_of_def demo_template_def replace_token_def value_or_space_def
  token_step_def ascii_convert_def py_replace_def str_nat.simps textlength_line_def
  py_setitem_def py_pos_def line_matches_def py_startswith_def py_endswith_def Let_def

lemma demo0: "\<not> line_matches demo_template (S ''<CODE>'') 0"
  by (simp add: slate_eval)

lemma demo1: "line_matches demo_template (S ''<CODE>'') (Suc 0)"
  by (simp add: slate_eval)

lemma demo2: "\<not> line_matches demo_template (S ''<CODE>'') (Suc (Suc 0))"
  by (simp add: slate_eval)

lemma demo_matches: "line_matches demo_template (S ''<CODE>'') j = (j = 1)"
proof -
  consider "j = 0" | "j = Suc 0" | "j = Suc (Suc 0)" | "3 \<le> j" by linarith
  then show ?thesis
  proof cases
    case 1
    then show ?thesis using demo0 by simp
  next
    case 2
    then show ?thesis using demo1 by simp
  next
    case 3
    then show ?thesis using demo2 by simp
  next
    case 4
    then show ?thesis by (simp add: line_matches_def demo_template_def)
  qed
qed

text \<open>
  C2, as the code has it. Let the values of the slate-info dictionary be strings or falsy,
  let no searched line of the template hold the code points of two of its tokens, let no
  line that holds a token come right after another one that does, and let the first line
  hold none. Then \<open>generate_slate\<close>'s loop returns a setup of the template's length in
  which, for every pair \<open>(token, value)\<close>, every line that starts with \<open>Text\<close> and
  holds the code points of the token has them replaced by the code points of the value,
  and the line before it is \<open>TextLength n\<close> with \<open>n\<close> the length of the value; where
  the value is empty or \<open>None\<close>, a single space stands for it (code point 32, length 1).
  Every other line is the template's.
\<close>

theorem generate_slate_substitution:
  assumes "\<forall>(token, v) \<in> set slate_info. \<exists>s. str_value (value_or_space v) = Inr s"
    and "distinct (map fst slate_info)"
    and "\<forall>a \<in> fst ` set slate_info. \<forall>b \<in> fst ` set slate_info. \<forall>j.
           line_matches t a j \<and> line_matches t b j \<longrightarrow> a = b"
    and "\<forall>a \<in> fst ` set slate_info. \<forall>b \<in> fst ` set slate_info. \<forall>j.
           line_matches t a (Suc j) \<longrightarrow> \<not> line_matches t b j"
    and "\<forall>a \<in> fst ` set slate_info. \<not> line_matches t a 0"
  shows "\<exists>final. fill_slate t slate_info = Inr final \<and> length final = length t
     \<and> (\<forall>j < length t.
          (\<forall>(token, v) \<in> set slate_info. \<forall>s. str_value (value_or_space v) = Inr s \<longrightarrow>
             (line_matches t token j \<longrightarrow>
                final ! j = py_replace (t ! j) (ascii_convert token) (ascii_convert s))
             \<and> (line_matches t token (Suc j) \<longrightarrow> final ! j = textlength_line (length s)))
          \<and> ((\<forall>token \<in> fst ` set slate_info.
                 \<not> line_matches t token j \<and> \<not> line_matches t token (Suc j))
               \<longrightarrow> final ! j = t ! j))"
  unfolding fill_slate_def
  using fill_setup_lines [OF refl assms] .

theorem generate_slate_substitution_witness:
  "\<exists>final. fill_slate demo_template [(S ''<CODE>'', PStr (S ''A1''))] = Inr final
     \<and> final ! 0 = textlength_line 2
     \<and> final ! 1 = py_replace (demo_template ! 1) (ascii_convert (S ''<CODE>''))
                      (ascii_convert (S ''A1''))
     \<and> final ! 2 = demo_template ! 2"
proof -
  let ?info = "[(S ''<CODE>'', PStr (S ''A1''))]"
  have v: "str_value (value_or_space (PStr (S ''A1''))) = Inr (S ''A1'')"
    by (simp add: value_or_space_def)
  have h1: "\<forall>(token, v) \<in> set ?info. \<exists>s. str_value (value_or_space v) = Inr s"
    using v by simp
  have h2: "distinct (map fst ?info)" by simp
  have h3: "\<forall>a \<in> fst ` set ?info. \<forall>b \<in> fst ` set ?info. \<forall>j.
           line_matches demo_template a j \<and> line_matches demo_template b j \<longrightarrow> a = b"
    by simp
  have h4: "\<forall>a \<in> fst ` set ?info. \<forall>b \<in> fst ` set ?info. \<forall>j.
           line_matches demo_template a (Suc j) \<longrightarrow> \<not> line_matches demo_template b j"
    using demo_matches by simp
  have h5: "\<forall>a \<in> fst ` set ?info. \<not> line_matches demo_template a 0"
    using demo0 by simp
  from generate_slate_substitution [OF h1 h2 h3 h4 h5]
  obtain final where f: "fill_slate demo_template ?info = Inr final"
    and all: "\<forall>j < length demo_template.
          (\<forall>(token, v) \<in> set ?info. \<forall>s. str_value (value_or_space v) = Inr s \<longrightarrow>
             (line_matches demo_template token j \<longrightarrow>
                final ! j = py_replace (demo_template ! j) (ascii_convert token) (ascii_convert s))
             \<and> (line_matches demo_template token (Suc j) \<longrightarrow>
                  final ! j = textlength_line (length s)))
          \<and> ((\<forall>token \<in> fst ` set ?info.
                 \<not> line_matches demo_template token j \<and> \<not> line_matches demo_template token (Suc j))
               \<longrightarrow> final ! j = demo_template ! j)"
    by (elim exE conjE) (rule that)
  have len: "length demo_template = 3" by (simp add: demo_template_def)
  have l0: "final ! 0 = textlength_line 2"
    using spec [OF all, of 0] len v demo_matches by (simp add: numeral_2_eq_2)
  have l1: "final ! 1 = py_replace (demo_template ! 1) (ascii_convert (S ''<CODE>''))
                      (ascii_convert (S ''A1''))"
    using spec [OF all, of 1] len v demo_matches by simp
  have l2: "final ! 2 = demo_template ! 2"
    using spec [OF all, of 2] len demo_matches by simp
  show ?thesis using f l0 l1 l2 by blast
qed

text \<open>
  C2 as stated fails where a value is the empty string: the claim gives the line
  \<open>TextLength 0\<close> and the token replaced by nothing, the code writes \<open>TextLength 1\<close>
  and the code point of a space.
\<close>

theorem generate_slate_empty_value_counterexample:
  "fill_slate demo_template [(S ''<CODE>'', PStr [])] =
     Inr [S ''TextLength 1\<newline>'', S ''Text 32\<newline>'', S ''End\<newline>'']
   \<and> textlength_line (length ([] :: pystr)) = S ''TextLength 0\<newline>''
   \<and> py_replace (demo_template ! 1) (ascii_convert (S ''<CODE>'')) (ascii_convert []) =
       S ''Text \<newline>''
   \<and> \<not> (\<exists>final. fill_slate demo_template [(S ''<CODE>'', PStr [])] = Inr final
          \<and> final ! 0 = textlength_line (length ([] :: pystr))
          \<and> final ! 1 = py_replace (demo_template ! 1) (ascii_convert (S ''<CODE>''))
                           (ascii_convert []))"
proof -
  have a: "fill_slate demo_template [(S ''<CODE>'', PStr [])] =
     Inr [S ''TextLength 1\<newline>'', S ''Text 32\<newline>'', S ''End\<newline>'']"
    by (simp add: slate_eval)
  have b: "textlength_line (length ([] :: pystr)) = S ''TextLength 0\<newline>''"
    by (simp add: slate_eval)
  have c: "py_replace (demo_template ! 1) (ascii_convert (S ''<CODE>'')) (ascii_convert []) =
       S ''Text \<newline>''"
    by (simp add: slate_eval)
  show ?thesis unfolding a b c by simp
qed

subsection \<open>The visibility tests\<close>

lemma py_index_nonempty: "xs \<noteq> [] \<Longrightarrow> py_index xs 0 = Inr (hd xs)"
  by (cases xs) (simp_all add: py_index_def py_pos_def)

lemma py_index_empty: "py_index [] i = Inl IndexError"
  by (simp add: py_index_def py_pos_def)

text \<open>
  C8. \<open>scope_reel\<close> rejects only selections longer than one before it reads
  \<open>selection[0]\<close>: on the empty selection it raises \<open>IndexError\<close>, and it returns a
  truth value exactly on the non-empty selections. \<open>scope_sequence\<close> asks for a length of
  exactly one first, so it returns a truth value on every selection, \<open>False\<close> on the
  empty one.
\<close>

theorem scope_reel_partial:
  "scope_reel h [] = Inl IndexError
   \<and> (\<exists>b. scope_reel h selection = Inr b) = (selection \<noteq> [])
   \<and> (\<exists>b. scope_sequence h selection = Inr b)
   \<and> scope_sequence h [] = Inr False"
proof -
  have a: "scope_reel h [] = Inl IndexError"
    by (simp add: scope_reel_def py_index_empty)
  have b: "(\<exists>b. scope_reel h selection = Inr b) = (selection \<noteq> [])"
  proof (cases "selection = []")
    case True
    then show ?thesis using a by simp
  next
    case False
    then show ?thesis by (auto simp: scope_reel_def py_index_nonempty)
  qed
  have c: "\<exists>b. scope_sequence h selection = Inr b"
  proof (cases "length selection = 1")
    case True
    then have "selection \<noteq> []" by auto
    then show ?thesis by (auto simp: scope_sequence_def py_index_nonempty)
  next
    case False
    then show ?thesis by (auto simp: scope_sequence_def)
  qed
  have d: "scope_sequence h [] = Inr False"
    by (simp add: scope_sequence_def)
  show ?thesis using a b c d by blast
qed

subsection \<open>Running a script\<close>

lemma ret_run [simp]: "ret x w = (r, w') \<longleftrightarrow> r = Inr x \<and> w' = w"
  by (auto simp: ret_def)

lemma raise_run [simp]: "raise e w = (r, w') \<longleftrightarrow> r = Inl e \<and> w' = w"
  by (auto simp: raise_def)

lemma lift_run [simp]: "lift v w = (r, w') \<longleftrightarrow> r = v \<and> w' = w"
  by (auto simp: lift_def)

lemma children_run [simp]:
  "children h x name w = (r, w') \<longleftrightarrow> r = Inr (list_attr h (trace w) x name) \<and> w' = w"
  by (auto simp: children_def)

lemma bindp_Inr:
  "bindp m f w = (Inr y, w'') \<longleftrightarrow> (\<exists>x w'. m w = (Inr x, w') \<and> f x w' = (Inr y, w''))"
  by (auto simp: bindp_def split: prod.splits sum.splits)

lemma bindp_cases:
  "bindp m f w = (r, w'') \<longleftrightarrow>
     (\<exists>e. m w = (Inl e, w'') \<and> r = Inl e) \<or> (\<exists>x w'. m w = (Inr x, w') \<and> f x w' = (r, w''))"
  by (auto simp: bindp_def split: prod.splits sum.splits)

lemma invoke_run:
  "invoke h c w = (r, w') \<longleftrightarrow>
     (\<exists>v. w' = log (c, v) w \<and> v = respond h (trace w) c
        \<and> r = (case v of None \<Rightarrow> Inl HostError | Some x \<Rightarrow> Inr x))"
  by (auto simp: invoke_def split: option.splits)

lemma invoke_obj_run:
  "invoke_obj h c w = (r, w') \<longleftrightarrow>
     (case respond_obj h (trace w) c of
        None \<Rightarrow> r = Inl HostError \<and> w' = log (c, None) w
      | Some x \<Rightarrow> r = Inr x \<and> w' = log (c, Some (PObj x)) w)"
  by (auto simp: invoke_obj_def split: option.splits)

lemma invoke_objs_run:
  "invoke_objs h c w = (r, w') \<longleftrightarrow>
     (case respond_objs h (trace w) c of
        None \<Rightarrow> r = Inl HostError \<and> w' = log (c, None) w
      | Some xs \<Rightarrow> r = Inr xs \<and> w' = log (c, Some (PList (map PObj xs))) w)"
  by (auto simp: invoke_objs_def split: option.splits)

lemma emit_run [simp]: "emit c w = (r, w') \<longleftrightarrow> r = Inr () \<and> w' = log (c, Some PNone) w"
  by (auto simp: emit_def)

lemma trace_log [simp]: "trace (log e w) = trace w @ [e]"
  by (simp add: log_def)

text \<open>Every entry that a script adds to the trace has a property.\<close>

definition adds :: "'a prog \<Rightarrow> (entry \<Rightarrow> bool) \<Rightarrow> bool" where
  "adds m P = (\<forall>w r w'. m w = (r, w') \<longrightarrow> (\<exists>evs. trace w' = trace w @ evs \<and> list_all P evs))"

lemma adds_ret [intro!, simp]: "adds (ret x) P"
  by (simp add: adds_def)

lemma adds_raise [intro!, simp]: "adds (raise e) P"
  by (simp add: adds_def)

lemma adds_lift [intro!, simp]: "adds (lift v) P"
  by (simp add: adds_def)

lemma adds_children [intro!, simp]: "adds (children h x name) P"
  by (simp add: adds_def)

lemma adds_bindp [intro!]:
  assumes "adds m P" and "\<And>x. adds (f x) P"
  shows "adds (bindp m f) P"
  unfolding adds_def
proof (intro allI impI)
  fix w r w''
  assume run: "bindp m f w = (r, w'')"
  then consider (fail) e where "m w = (Inl e, w'')" "r = Inl e"
    | (ok) x w' where "m w = (Inr x, w')" "f x w' = (r, w'')"
    by (auto simp: bindp_cases)
  then show "\<exists>evs. trace w'' = trace w @ evs \<and> list_all P evs"
  proof cases
    case fail
    then show ?thesis using assms(1) by (auto simp: adds_def)
  next
    case ok
    from ok(1) assms(1) obtain evs1 where 1: "trace w' = trace w @ evs1" "list_all P evs1"
      unfolding adds_def by blast
    from ok(2) assms(2) obtain evs2 where 2: "trace w'' = trace w' @ evs2" "list_all P evs2"
      unfolding adds_def by blast
    show ?thesis using 1 2 by (intro exI [of _ "evs1 @ evs2"]) simp
  qed
qed

lemma adds_invoke: "(\<And>v. P (c, v)) \<Longrightarrow> adds (invoke h c) P"
  by (auto simp: adds_def invoke_run)

lemma adds_invoke_obj: "(\<And>v. P (c, v)) \<Longrightarrow> adds (invoke_obj h c) P"
  by (auto simp: adds_def invoke_obj_run split: option.splits)

lemma adds_invoke_objs: "(\<And>v. P (c, v)) \<Longrightarrow> adds (invoke_objs h c) P"
  by (auto simp: adds_def invoke_objs_run split: option.splits)

lemma adds_emit: "(\<And>v. P (c, v)) \<Longrightarrow> adds (emit c) P"
  by (auto simp: adds_def)

lemma adds_if [intro!]: "adds a P \<Longrightarrow> adds b P \<Longrightarrow> adds (if c then a else b) P"
  by simp

lemma adds_let [intro!]: "adds (f x) P \<Longrightarrow> adds (let y = x in f y) P"
  by simp

subsection \<open>The frame numbers of a Version record\<close>

lemma version_data_frames:
  "version_frames h
     (Create sg (S ''Version'')
        (PDict (version_data (str_attr h clip ''name'') shot_id task_id project_id description user
                  (int_attr h clip ''duration.frame'') ratio rate movie)), v)"
  unfolding version_frames_def
  by (intro allI impI exI [of _ clip]) (simp add: version_data_def)

lemma not_create_frames:
  "(\<And>sg t data. c \<noteq> Create sg t data) \<Longrightarrow> version_frames h (c, v)"
  by (simp add: version_frames_def)

lemma adds_first_segment: "adds (first_segment h clip) P"
  unfolding first_segment_def by (intro adds_bindp adds_children adds_lift)

lemma adds_create_version:
  "adds (create_version h shotgrid reel project path sg_authorization clip versions)
     (version_frames h)"
  unfolding create_version_def Let_def
  by (intro adds_bindp adds_first_segment adds_lift adds_if adds_ret adds_invoke
        version_data_frames not_create_frames) simp_all

lemma adds_create_versions_loop:
  "adds (create_versions_loop h shotgrid reel project path sg_authorization clips versions)
     (version_frames h)"
  by (induction clips arbitrary: versions) (auto intro!: adds_create_version)

lemma adds_create_versions:
  "adds (create_versions h reel project path sg_authorization) (version_frames h)"
  unfolding create_versions_def
  by (intro adds_bindp adds_children adds_create_versions_loop adds_invoke_obj not_create_frames)
     simp_all

text \<open>
  C10. Every Version record that \<open>create_versions\<close> sends to the tracking service has
  \<open>sg_first_frame\<close> 1001, \<open>sg_last_frame\<close> the duration of its clip plus 999 and
  \<open>frame_count\<close> that duration minus 1, so \<open>sg_last_frame - sg_first_frame + 1 = frame_count\<close>.
\<close>

theorem create_versions_frames:
  assumes "create_versions h reel project path sg_authorization w = (r, w')"
  shows "\<exists>evs. trace w' = trace w @ evs
     \<and> (\<forall>sg data v. (Create sg (S ''Version'') data, v) \<in> set evs \<longrightarrow>
          (\<exists>clip first_frame last_frame frame_count.
             str_field data (S ''code'') = Some (str_attr h clip ''name'')
             \<and> int_field data (S ''sg_first_frame'') = Some first_frame
             \<and> int_field data (S ''sg_last_frame'') = Some last_frame
             \<and> int_field data (S ''frame_count'') = Some frame_count
             \<and> first_frame = 1001
             \<and> last_frame = int_attr h clip ''duration.frame'' + 999
             \<and> frame_count = int_attr h clip ''duration.frame'' - 1
             \<and> last_frame - first_frame + 1 = frame_count))"
proof -
  from adds_create_versions assms
  obtain evs where evs: "trace w' = trace w @ evs" "list_all (version_frames h) evs"
    unfolding adds_def by blast
  have "\<forall>e \<in> set evs. version_frames h e"
    using evs(2) by (simp add: list_all_iff)
  then show ?thesis using evs(1) unfolding version_frames_def by blast
qed

text \<open>The equations that run a script on a given host.\<close>

lemmas run_eval =
  bindp_def ret_def raise_def lift_def invoke_def invoke_obj_def invoke_objs_def emit_def
  children_def try_except_def log_def py_index_def py_pos_def path_join_all_def path_join_def
  py_startswith_def py_endswith_def entity_def Let_def demo_host_def demo_world_def

lemma demo_create_versions:
  "\<exists>sg data v. (Create sg (S ''Version'') data, v) \<in> set (trace (snd
     (create_versions demo_host 1 (PDict [(S ''id'', PInt 1)]) (PStr (S ''/out'')) 9 demo_world)))
     \<and> int_field data (S ''sg_last_frame'') = Some 1047"
  by (simp add: create_versions_def create_version_def first_segment_def frame_rate_float_def
      version_data_def run_eval)

theorem create_versions_frames_witness:
  "\<exists>evs sg data v.
     trace (snd (create_versions demo_host 1 (PDict [(S ''id'', PInt 1)]) (PStr (S ''/out'')) 9
                   demo_world)) = trace demo_world @ evs
     \<and> (Create sg (S ''Version'') data, v) \<in> set evs
     \<and> int_field data (S ''sg_first_frame'') = Some 1001
     \<and> int_field data (S ''sg_last_frame'') = Some 1047
     \<and> int_field data (S ''frame_count'') = Some 47"
proof -
  let ?run = "create_versions demo_host 1 (PDict [(S ''id'', PInt 1)]) (PStr (S ''/out'')) 9
                demo_world"
  have run: "?run = (fst ?run, snd ?run)" by simp
  from create_versions_frames [OF run]
  obtain evs where evs: "trace (snd ?run) = trace demo_world @ evs"
    and all: "\<forall>sg data v. (Create sg (S ''Version'') data, v) \<in> set evs \<longrightarrow>
          (\<exists>clip first_frame last_frame frame_count.
             str_field data (S ''code'') = Some (str_attr demo_host clip ''name'')
             \<and> int_field data (S ''sg_first_frame'') = Some first_frame
             \<and> int_field data (S ''sg_last_frame'') = Some last_frame
             \<and> int_field data (S ''frame_count'') = Some frame_count
             \<and> first_frame = 1001
             \<and> last_frame = int_attr demo_host clip ''duration.frame'' + 999
             \<and> frame_count = int_attr demo_host clip ''duration.frame'' - 1
             \<and> last_frame - first_frame + 1 = frame_count)"
    by (elim exE conjE) (rule that)
  have "trace demo_world = []" by (simp add: demo_world_def)
  with evs have eq: "evs = trace (snd ?run)" by simp
  from demo_create_versions obtain sg data v
    where mem: "(Create sg (S ''Version'') data, v) \<in> set evs"
      and last: "int_field data (S ''sg_last_frame'') = Some 1047"
    unfolding eq by blast
  from all mem obtain first_frame last_frame frame_count
    where f: "int_field data (S ''sg_first_frame'') = Some first_frame"
      "int_field data (S ''sg_last_frame'') = Some last_frame"
      "int_field data (S ''frame_count'') = Some frame_count"
      "first_frame = 1001" "last_frame - first_frame + 1 = frame_count"
    by blast
  from f last have c: "int_field data (S ''frame_count'') = Some 47"
    and a: "int_field data (S ''sg_first_frame'') = Some 1001" by simp_all
  show ?thesis
    using evs mem a last c
    by (intro exI [of _ evs] exI [of _ sg] exI [of _ data] exI [of _ v]) simp
qed

end
